theory Spec2Isabelle
  imports Complex_Main "HOL-Library.Monad_Syntax"
begin

section \<open>The host document as a store\<close>

text \<open>
  The functions of \<^verbatim>\<open>domUtils.ts\<close> only read the host's DOM. A node is an address;
  the store gives, for every address, the properties the code reads. Nothing in the store
  forces parent links to be acyclic, so every loop of the source that follows links is a
  partial function: \<open>None\<close> is a loop that runs forever, \<open>Some r\<close> is a call that returns
  \<open>r\<close>. A JavaScript value that may be \<^verbatim>\<open>undefined\<close> or \<^verbatim>\<open>null\<close> is an \<open>option\<close>.
\<close>

type_synonym node = nat

record style =
  display :: string
  visibility :: string

record rect =
  width :: real
  height :: real

datatype error = SyntaxError

record dom =
  nodeType :: "node \<Rightarrow> nat"
  nodeName :: "node \<Rightarrow> string"
  parentNode :: "node \<Rightarrow> node option"
  host :: "node \<Rightarrow> node option"
  childNodes :: "node \<Rightarrow> node list"
  ownerDocument :: "node \<Rightarrow> node option"
  defaultView :: "node \<Rightarrow> nat option"
  getComputedStyle :: "nat \<Rightarrow> node \<Rightarrow> string option \<Rightarrow> style"
  getBoundingClientRect :: "node \<Rightarrow> rect"
  rangeBoundingClientRect :: "node \<Rightarrow> rect"
  hasCheckVisibility :: bool
  checkVisibility :: "node \<Rightarrow> bool"
  detailsOpen :: "node \<Rightarrow> bool"
  selectorValid :: "string \<Rightarrow> bool"
  matches :: "string \<Rightarrow> node \<Rightarrow> node \<Rightarrow> bool"

text \<open>
  \<open>nodeType\<close> is the DOM's numeric tag: 1 element, 3 text, 9 document, 11 document
  fragment (a shadow root is a fragment with a \<open>host\<close>). \<open>childNodes d n\<close> is the
  sibling list that \<^verbatim>\<open>firstChild\<close>/\<^verbatim>\<open>nextSibling\<close> enumerate, in document order.
  \<open>getComputedStyle d view e pseudo\<close> is the view's style oracle, the two rectangles are
  the host's measurements (the code only compares their sides with 0),
  \<open>rangeBoundingClientRect d t\<close> the box of a range that selects the node \<open>t\<close>,
  \<open>hasCheckVisibility\<close> says whether \<^verbatim>\<open>Element.prototype.checkVisibility\<close> exists and
  \<open>checkVisibility d e\<close> is its answer for the options the source passes
  (\<^verbatim>\<open>checkOpacity: false, checkVisibilityCSS: false\<close>). \<open>selectorValid d css\<close> says
  whether the host's selector engine parses \<open>css\<close>, \<open>matches d css scope e\<close> whether \<open>e\<close>
  matches it when \<^verbatim>\<open>:scope\<close> stands for the element \<open>scope\<close> (the scoping root of the
  match).
\<close>

subsection \<open>Host primitives derived from the parent links\<close>

text \<open>\<^verbatim>\<open>node.parentElement\<close>: the parent node when it is an element.\<close>

definition parentElement :: "dom \<Rightarrow> node \<Rightarrow> node option" where
  "parentElement d n =
     (case parentNode d n of
        None \<Rightarrow> None
      | Some p \<Rightarrow> if nodeType d p = 1 then Some p else None)"

text \<open>\<^verbatim>\<open>scope.contains(other)\<close>: \<open>other\<close> is \<open>scope\<close> or has it among its parent nodes.
  Shadow roots have no parent node, so the walk stops at the boundary of a shadow tree.\<close>

partial_function (option) contains :: "dom \<Rightarrow> node \<Rightarrow> node \<Rightarrow> bool option" where
  "contains d scope other =
     (if other = scope then Some True
      else case parentNode d other of
             None \<Rightarrow> Some False
           | Some p \<Rightarrow> contains d scope p)"

text \<open>The walk of \<^verbatim>\<open>element.closest(css)\<close> for a selector that parses: the first of the
  element and its parent elements that matches. The scoping root of every match of the
  walk is \<open>scope\<close>, the element on which \<^verbatim>\<open>closest\<close> was called; \<open>element\<close> is the
  ancestor the walk has reached.\<close>

partial_function (option) closestMatch ::
  "dom \<Rightarrow> string \<Rightarrow> node \<Rightarrow> node \<Rightarrow> node option option" where
  "closestMatch d css scope element =
     (if matches d css scope element then Some (Some element)
      else case parentElement d element of
             None \<Rightarrow> Some None
           | Some p \<Rightarrow> closestMatch d css scope p)"

text \<open>\<^verbatim>\<open>element.closest(css)\<close>: the host throws a \<^verbatim>\<open>SyntaxError\<close> for a selector it
  cannot parse; the source does not catch it.\<close>

definition closest :: "dom \<Rightarrow> node \<Rightarrow> string \<Rightarrow> (error + node option) option" where
  "closest d element css =
     (if selectorValid d css then map_option Inr (closestMatch d css element element)
      else Some (Inl SyntaxError))"

section \<open>Shadow traversal\<close>

definition parentElementOrShadowHost :: "dom \<Rightarrow> node \<Rightarrow> node option" where
  "parentElementOrShadowHost d element =
     (case parentElement d element of
        Some p \<Rightarrow> Some p
      | None \<Rightarrow>
          (case parentNode d element of
             None \<Rightarrow> None
           | Some pn \<Rightarrow> if nodeType d pn = 11 then host d pn else None))"

partial_function (option) enclosingShadowRootOrDocument :: "dom \<Rightarrow> node \<Rightarrow> node option option" where
  "enclosingShadowRootOrDocument d node =
     (case parentNode d node of
        Some p \<Rightarrow> enclosingShadowRootOrDocument d p
      | None \<Rightarrow>
          Some (if nodeType d node = 11 \<or> nodeType d node = 9 then Some node else None))"

partial_function (option) enclosingShadowHost :: "dom \<Rightarrow> node \<Rightarrow> node option option" where
  "enclosingShadowHost d element =
     (case parentElement d element of
        Some p \<Rightarrow> enclosingShadowHost d p
      | None \<Rightarrow> Some (parentElementOrShadowHost d element))"

partial_function (option) isInsideScope :: "dom \<Rightarrow> node \<Rightarrow> node option \<Rightarrow> bool option" where
  "isInsideScope d scope element =
     (case element of
        None \<Rightarrow> Some False
      | Some e \<Rightarrow>
          do {
            inside \<leftarrow> contains d scope e;
            if inside then Some True
            else do {
              h \<leftarrow> enclosingShadowHost d e;
              isInsideScope d scope h
            }
          })"

partial_function (option) closestCrossShadow ::
  "dom \<Rightarrow> node option \<Rightarrow> string \<Rightarrow> (error + node option) option" where
  "closestCrossShadow d element css =
     (case element of
        None \<Rightarrow> Some (Inr None)
      | Some e \<Rightarrow>
          do {
            r \<leftarrow> closest d e css;
            case r of
              Inl err \<Rightarrow> Some (Inl err)
            | Inr (Some c) \<Rightarrow> Some (Inr (Some c))
            | Inr None \<Rightarrow>
                do {
                  h \<leftarrow> enclosingShadowHost d e;
                  closestCrossShadow d h css
                }
          })"

section \<open>Style oracle accessor\<close>

definition getElementComputedStyle :: "dom \<Rightarrow> node \<Rightarrow> string option \<Rightarrow> style option" where
  "getElementComputedStyle d element pseudo =
     (case ownerDocument d element of
        None \<Rightarrow> None
      | Some doc \<Rightarrow>
          (case defaultView d doc of
             None \<Rightarrow> None
           | Some view \<Rightarrow> Some (getComputedStyle d view element pseudo)))"

section \<open>Visibility style check\<close>

text \<open>
  The optional second argument is \<^verbatim>\<open>style\<close>; \<^verbatim>\<open>style ?? getElementComputedStyle(element)\<close>
  resolves it when it is absent. The selector of the fallback branch is the literal
  \<^verbatim>\<open>'details,summary'\<close>, which every selector engine parses, so that call of
  \<^verbatim>\<open>element.closest\<close> is its walk and cannot throw.
\<close>

definition isElementStyleVisibilityVisible :: "dom \<Rightarrow> node \<Rightarrow> style option \<Rightarrow> bool option" where
  "isElementStyleVisibilityVisible d element styleArg =
     (case (case styleArg of Some s \<Rightarrow> Some s | None \<Rightarrow> getElementComputedStyle d element None) of
        None \<Rightarrow> Some True
      | Some style \<Rightarrow>
          if hasCheckVisibility d then
            (if \<not> checkVisibility d element then Some False
             else if visibility style \<noteq> ''visible'' then Some False
             else Some True)
          else
            do {
              detailsOrSummary \<leftarrow> closestMatch d ''details,summary'' element element;
              if detailsOrSummary \<noteq> Some element \<and>
                 map_option (nodeName d) detailsOrSummary = Some ''DETAILS'' \<and>
                 (case detailsOrSummary of None \<Rightarrow> False | Some ds \<Rightarrow> \<not> detailsOpen d ds)
              then Some False
              else if visibility style \<noteq> ''visible'' then Some False
              else Some True
            })"

section \<open>Text node visibility\<close>

text \<open>A text node always has an owner document (the type \<^verbatim>\<open>Text\<close> says so), so creating
  the range cannot fail; the measured box is the host's answer.\<close>

definition isVisibleTextNode :: "dom \<Rightarrow> node \<Rightarrow> bool" where
  "isVisibleTextNode d node =
     (let rect = rangeBoundingClientRect d node
      in width rect > 0 \<and> height rect > 0)"

section \<open>Element visibility\<close>

text \<open>
  \<^verbatim>\<open>isElementVisible\<close> calls itself from inside its two loops over the children, so the
  function and the loops are one recursion. A task says where the control is: at the
  start of the function for an element, or in one of the loops with the children still
  to visit.
\<close>

datatype task =
    Visible node
  | ContentsChildren "node list"
  | InlineChildren "node list"

partial_function (option) isElementVisible_task :: "dom \<Rightarrow> task \<Rightarrow> bool option" where
  "isElementVisible_task d t =
     (case t of
        Visible element \<Rightarrow>
          (case getElementComputedStyle d element None of
             None \<Rightarrow> Some True
           | Some style \<Rightarrow>
               if display style = ''contents'' then
                 isElementVisible_task d (ContentsChildren (childNodes d element))
               else
                 do {
                   styleVisible \<leftarrow> isElementStyleVisibilityVisible d element (Some style);
                   if \<not> styleVisible then Some False
                   else
                     let rect = getBoundingClientRect d element;
                         visible = (width rect > 0 \<and> height rect > 0)
                     in if \<not> visible \<and> display style = ''inline'' \<and> height rect > 0 then
                          isElementVisible_task d (InlineChildren (childNodes d element))
                        else Some visible
                 })
      | ContentsChildren cs \<Rightarrow>
          (case cs of
             [] \<Rightarrow> Some False
           | child # rest \<Rightarrow>
               do {
                 elementVisible \<leftarrow>
                   (if nodeType d child = 1 then isElementVisible_task d (Visible child)
                    else Some False);
                 if elementVisible then Some True
                 else if nodeType d child = 3 \<and> isVisibleTextNode d child then Some True
                 else isElementVisible_task d (ContentsChildren rest)
               })
      | InlineChildren cs \<Rightarrow>
          (case cs of
             [] \<Rightarrow> Some False
           | child # rest \<Rightarrow>
               if nodeType d child = 1 then
                 do {
                   inlineVisible \<leftarrow>
                     (if map_option display (getElementComputedStyle d child None) = Some ''inline''
                      then isElementVisible_task d (Visible child)
                      else Some False);
                   if inlineVisible then Some True
                   else isElementVisible_task d (InlineChildren rest)
                 }
               else isElementVisible_task d (InlineChildren rest)))"

definition isElementVisible :: "dom \<Rightarrow> node \<Rightarrow> bool option" where
  "isElementVisible d element = isElementVisible_task d (Visible element)"

text \<open>The loop of the \<^verbatim>\<open>display: contents\<close> branch, from the children still to visit.\<close>

definition contentsChildrenVisible :: "dom \<Rightarrow> node list \<Rightarrow> bool option" where
  "contentsChildrenVisible d cs = isElementVisible_task d (ContentsChildren cs)"

text \<open>The loop of the inline quirk branch, from the children still to visit.\<close>

definition inlineChildrenVisible :: "dom \<Rightarrow> node list \<Rightarrow> bool option" where
  "inlineChildrenVisible d cs = isElementVisible_task d (InlineChildren cs)"


section \<open>Well-formed documents\<close>

text \<open>
  The host guarantees that a document is a finite forest: following parent links, or the
  link from a shadow root to its host, never comes back to the same node, and the
  children of a node lie strictly below it. \<open>upRel d\<close> relates a node to what lies one
  link above it, \<open>childRel d\<close> a child to its parent; well-foundedness says that no chain
  of links goes on forever.
\<close>

definition upRel :: "dom \<Rightarrow> (node \<times> node) set" where
  "upRel d = {(p, n). parentNode d n = Some p \<or> host d n = Some p}"

definition childRel :: "dom \<Rightarrow> (node \<times> node) set" where
  "childRel d = {(c, e). c \<in> set (childNodes d e)}"

definition acyclicLinks :: "dom \<Rightarrow> bool" where
  "acyclicLinks d = wf (upRel d)"

definition acyclicDom :: "dom \<Rightarrow> bool" where
  "acyclicDom d = (wf (upRel d) \<and> wf (childRel d))"


text \<open>One escape of \<^verbatim>\<open>enclosingShadowHost\<close>: from an element to the host of the shadow
  tree it lives in.\<close>

definition hostRel :: "dom \<Rightarrow> (node \<times> node) set" where
  "hostRel d = {(x, y). enclosingShadowHost d x = Some (Some y)}"

text \<open>One step of the walk of the native \<^verbatim>\<open>closest\<close>: from an element to its parent
  element, never across the boundary of a shadow tree.\<close>

definition localRel :: "dom \<Rightarrow> (node \<times> node) set" where
  "localRel d = {(x, y). parentElement d x = Some y}"

section \<open>Example documents\<close>

text \<open>
  A closed \<^verbatim>\<open>details\<close> element (1) in a document (0) holds a \<^verbatim>\<open>div\<close> (2) that hosts
  a shadow root (3) with one \<^verbatim>\<open>span\<close> (4). The engine has no \<^verbatim>\<open>checkVisibility\<close>.
  Its selector engine knows three selectors: \<^verbatim>\<open>details,summary\<close> and \<^verbatim>\<open>div\<close>, which
  do not depend on the scoping root, and \<^verbatim>\<open>:not(:scope)\<close>, which every element but
  the scoping root matches.
\<close>

definition shadowDom :: dom where
  "shadowDom = \<lparr>
     nodeType = (\<lambda>n. if n = 0 then 9 else if n = 3 then 11 else 1),
     nodeName = (\<lambda>n. if n = 0 then ''#document'' else if n = 1 then ''DETAILS''
                     else if n = 2 then ''DIV'' else if n = 3 then ''#document-fragment''
                     else ''SPAN''),
     parentNode = (\<lambda>n. if n = 1 then Some 0 else if n = 2 then Some 1
                       else if n = 4 then Some 3 else None),
     host = (\<lambda>n. if n = 3 then Some 2 else None),
     childNodes = (\<lambda>n. if n = 0 then [1] else if n = 1 then [2] else if n = 3 then [4] else []),
     ownerDocument = (\<lambda>n. if n = 0 then None else Some 0),
     defaultView = (\<lambda>n. if n = 0 then Some 0 else None),
     getComputedStyle = (\<lambda>view e pseudo. \<lparr>display = ''block'', visibility = ''visible''\<rparr>),
     getBoundingClientRect = (\<lambda>n. \<lparr>width = 10, height = 10\<rparr>),
     rangeBoundingClientRect = (\<lambda>n. \<lparr>width = 0, height = 0\<rparr>),
     hasCheckVisibility = False,
     checkVisibility = (\<lambda>n. True),
     detailsOpen = (\<lambda>n. False),
     selectorValid = (\<lambda>css. css = ''details,summary'' \<or> css = ''div'' \<or> css = '':not(:scope)''),
     matches = (\<lambda>css scope n. (css = ''details,summary'' \<and> n = 1) \<or> (css = ''div'' \<and> n = 2) \<or>
                              (css = '':not(:scope)'' \<and> n \<noteq> scope))
   \<rparr>"

text \<open>The same nodes, but the fragment (3) has no host: a plain document fragment, as
  \<^verbatim>\<open>document.createDocumentFragment()\<close> makes, with the \<^verbatim>\<open>span\<close> (4) appended.\<close>

definition fragmentDom :: dom where
  "fragmentDom = shadowDom\<lparr>host := (\<lambda>n. None)\<rparr>"

text \<open>
  A document (0) in an engine that has \<^verbatim>\<open>checkVisibility\<close>. Element 1 has
  \<^verbatim>\<open>display: contents\<close> and the children 2, an empty text node, and 3, an inline element
  that the engine measures 0 by 10 and whose child 4 is an inline element of 10 by 10.
  Element 6 is a block of 10 by 10 that \<^verbatim>\<open>checkVisibility\<close> rejects. Element 7 has
  \<^verbatim>\<open>display: contents\<close>, \<^verbatim>\<open>visibility: hidden\<close>, is rejected by \<^verbatim>\<open>checkVisibility\<close> and
  holds the text node 8, measured 5 by 5. Element 9 has no owner document. Element 10 has
  \<^verbatim>\<open>display: contents\<close> and the children 11, an empty text node, and 12, a block that
  \<^verbatim>\<open>checkVisibility\<close> rejects.
\<close>

definition visDom :: dom where
  "visDom = \<lparr>
     nodeType = (\<lambda>n. if n = 0 then 9 else if n = 2 \<or> n = 8 \<or> n = 11 then 3 else 1),
     nodeName = (\<lambda>n. if n = 0 then ''#document''
                     else if n = 2 \<or> n = 8 \<or> n = 11 then ''#text''
                     else if n = 3 \<or> n = 4 then ''SPAN'' else ''DIV''),
     parentNode = (\<lambda>n. if n = 1 \<or> n = 6 \<or> n = 7 \<or> n = 10 then Some 0
                       else if n = 2 \<or> n = 3 then Some 1
                       else if n = 4 then Some 3
                       else if n = 8 then Some 7
                       else if n = 11 \<or> n = 12 then Some 10 else None),
     host = (\<lambda>n. None),
     childNodes = (\<lambda>n. if n = 0 then [1, 6, 7, 10] else if n = 1 then [2, 3]
                       else if n = 3 then [4] else if n = 7 then [8]
                       else if n = 10 then [11, 12] else []),
     ownerDocument = (\<lambda>n. if n = 0 \<or> n = 9 then None else Some 0),
     defaultView = (\<lambda>n. if n = 0 then Some 0 else None),
     getComputedStyle = (\<lambda>view e pseudo.
        \<lparr>display = (if e = 1 \<or> e = 7 \<or> e = 10 then ''contents''
                    else if e = 3 \<or> e = 4 then ''inline'' else ''block''),
         visibility = (if e = 7 then ''hidden'' else ''visible'')\<rparr>),
     getBoundingClientRect = (\<lambda>n. if n = 1 \<or> n = 7 \<or> n = 10 then \<lparr>width = 0, height = 0\<rparr>
                                  else if n = 3 then \<lparr>width = 0, height = 10\<rparr>
                                  else \<lparr>width = 10, height = 10\<rparr>),
     rangeBoundingClientRect = (\<lambda>n. if n = 8 then \<lparr>width = 5, height = 5\<rparr>
                                    else \<lparr>width = 0, height = 0\<rparr>),
     hasCheckVisibility = True,
     checkVisibility = (\<lambda>n. n \<noteq> 6 \<and> n \<noteq> 7 \<and> n \<noteq> 12),
     detailsOpen = (\<lambda>n. False),
     selectorValid = (\<lambda>css. css = ''details,summary''),
     matches = (\<lambda>css scope n. False)
   \<rparr>"

section \<open>Walking up: termination and results\<close>

lemma parentNode_upRel: "parentNode d n = Some p \<Longrightarrow> (p, n) \<in> upRel d"
  by (simp add: upRel_def)

lemma parentElement_parentNode: "parentElement d n = Some p \<Longrightarrow> parentNode d n = Some p"
  by (auto simp: parentElement_def split: option.splits if_splits)

lemma parentElement_upRel: "parentElement d n = Some p \<Longrightarrow> (p, n) \<in> upRel d"
  by (simp add: parentNode_upRel parentElement_parentNode)

lemma parentElementOrShadowHost_up:
  "parentElementOrShadowHost d e = Some h \<Longrightarrow> (h, e) \<in> (upRel d)\<^sup>+"
proof -
  assume a: "parentElementOrShadowHost d e = Some h"
  show ?thesis
  proof (cases "parentElement d e")
    case (Some p)
    with a have "p = h" by (simp add: parentElementOrShadowHost_def)
    with Some show ?thesis by (auto dest: parentElement_upRel)
  next
    case None
    with a obtain pn where pn: "parentNode d e = Some pn" "host d pn = Some h"
      by (auto simp: parentElementOrShadowHost_def split: option.splits if_splits)
    then have "(h, pn) \<in> upRel d" "(pn, e) \<in> upRel d" by (simp_all add: upRel_def)
    then show ?thesis by (auto intro: trancl_into_trancl)
  qed
qed

lemma rtrancl_first_step:
  "(e, a) \<in> r\<^sup>* \<Longrightarrow> a \<noteq> e \<Longrightarrow> \<exists>y. (e, y) \<in> r \<and> (y, a) \<in> r\<^sup>*"
  by (auto elim: converse_rtranclE)

lemma contains_returns:
  assumes "wf (upRel d)"
  shows "\<exists>b. contains d scope n = Some b"
  using assms
proof (induction n rule: wf_induct_rule)
  case (less n)
  show ?case
  proof (cases "parentNode d n")
    case None
    then show ?thesis by (subst contains.simps) auto
  next
    case (Some p)
    then have "\<exists>b. contains d scope p = Some b" using less by (simp add: parentNode_upRel)
    with Some show ?thesis by (subst contains.simps) auto
  qed
qed

lemma enclosingShadowRootOrDocument_returns:
  assumes "wf (upRel d)"
  shows "\<exists>r. enclosingShadowRootOrDocument d n = Some r"
  using assms
proof (induction n rule: wf_induct_rule)
  case (less n)
  show ?case
  proof (cases "parentNode d n")
    case None
    then show ?thesis by (subst enclosingShadowRootOrDocument.simps) simp
  next
    case (Some p)
    then have "\<exists>r. enclosingShadowRootOrDocument d p = Some r"
      using less by (simp add: parentNode_upRel)
    with Some show ?thesis by (subst enclosingShadowRootOrDocument.simps) simp
  qed
qed

text \<open>One walk up the parent elements serves both the closest match and the escape to
  the host.\<close>

lemma enclosingShadowHost_returns:
  assumes "wf (upRel d)"
  shows "\<exists>ho. enclosingShadowHost d e = Some ho \<and> (\<forall>h. ho = Some h \<longrightarrow> (h, e) \<in> (upRel d)\<^sup>+)"
  using assms
proof (induction e rule: wf_induct_rule)
  case (less e)
  show ?case
  proof (cases "parentElement d e")
    case None
    have "enclosingShadowHost d e = Some (parentElementOrShadowHost d e)"
      using None by (subst enclosingShadowHost.simps) simp
    moreover have "\<forall>h. parentElementOrShadowHost d e = Some h \<longrightarrow> (h, e) \<in> (upRel d)\<^sup>+"
      by (intro allI impI) (rule parentElementOrShadowHost_up)
    ultimately show ?thesis by (intro exI conjI)
  next
    case (Some p)
    then have pe: "(p, e) \<in> upRel d" by (rule parentElement_upRel)
    from less.IH [OF pe] obtain ho where
      ho: "enclosingShadowHost d p = Some ho" and
      up: "\<forall>h. ho = Some h \<longrightarrow> (h, p) \<in> (upRel d)\<^sup>+"
      by (elim exE conjE)
    have "enclosingShadowHost d e = Some ho"
      using Some ho by (subst enclosingShadowHost.simps) simp
    moreover have "\<forall>h. ho = Some h \<longrightarrow> (h, e) \<in> (upRel d)\<^sup>+"
    proof (intro allI impI)
      fix h assume "ho = Some h"
      with up have "(h, p) \<in> (upRel d)\<^sup>+" by simp
      from this pe show "(h, e) \<in> (upRel d)\<^sup>+" by (rule trancl_into_trancl)
    qed
    ultimately show ?thesis by (intro exI conjI)
  qed
qed

lemma closestMatch_self:
  "matches d css s e \<Longrightarrow> closestMatch d css s e = Some (Some e)"
  by (subst closestMatch.simps) simp

lemma localRel_acyclic:
  assumes "wf (upRel d)"
  shows "(x, x) \<notin> (localRel d)\<^sup>+"
proof
  assume "(x, x) \<in> (localRel d)\<^sup>+"
  moreover have "localRel d \<subseteq> (upRel d)\<inverse>"
    by (auto simp: localRel_def dest: parentElement_upRel)
  ultimately have "(x, x) \<in> ((upRel d)\<inverse>)\<^sup>+" by (rule trancl_mono)
  then have "(x, x) \<in> (upRel d)\<^sup>+" by (simp add: trancl_converse)
  moreover have "wf ((upRel d)\<^sup>+)" using assms by (rule wf_trancl)
  ultimately show False by simp
qed

lemma closestMatch_nearest:
  assumes "wf (upRel d)"
  shows "\<exists>r. closestMatch d css s e = Some r \<and>
           (\<forall>a. r = Some a \<longrightarrow> (e, a) \<in> (localRel d)\<^sup>* \<and> matches d css s a \<and>
                 (\<forall>b. (e, b) \<in> (localRel d)\<^sup>* \<and> (b, a) \<in> (localRel d)\<^sup>+ \<longrightarrow> \<not> matches d css s b)) \<and>
           (r = None \<longleftrightarrow> (\<forall>a. (e, a) \<in> (localRel d)\<^sup>* \<longrightarrow> \<not> matches d css s a))"
  using assms
proof (induction e rule: wf_induct_rule)
  case (less e)
  show ?case
  proof (cases "matches d css s e")
    case True
    have r: "closestMatch d css s e = Some (Some e)" using True by (rule closestMatch_self)
    have refl: "(e, e) \<in> (localRel d)\<^sup>*" by (rule rtrancl.rtrancl_refl)
    have near: "\<forall>b. (e, b) \<in> (localRel d)\<^sup>* \<and> (b, e) \<in> (localRel d)\<^sup>+ \<longrightarrow> \<not> matches d css s b"
    proof (intro allI impI)
      fix b assume "(e, b) \<in> (localRel d)\<^sup>* \<and> (b, e) \<in> (localRel d)\<^sup>+"
      then have "(e, b) \<in> (localRel d)\<^sup>*" "(b, e) \<in> (localRel d)\<^sup>+" by simp_all
      then have "(e, e) \<in> (localRel d)\<^sup>+" by (rule rtrancl_trancl_trancl)
      with localRel_acyclic [OF assms, of e] show "\<not> matches d css s b" by simp
    qed
    have some: "\<not> (\<forall>a. (e, a) \<in> (localRel d)\<^sup>* \<longrightarrow> \<not> matches d css s a)"
      using refl True by (intro notI) (drule spec, drule mp, assumption, simp)
    from r refl True near some show ?thesis by simp
  next
    case False
    show ?thesis
    proof (cases "parentElement d e")
      case None
      have r: "closestMatch d css s e = Some None"
        using False None by (subst closestMatch.simps) simp
      have "\<not> matches d css s a" if "(e, a) \<in> (localRel d)\<^sup>*" for a
      proof (cases "a = e")
        case True
        with False show ?thesis by simp
      next
        case ne: False
        from rtrancl_first_step [OF that ne]
        obtain y where "(e, y) \<in> localRel d" by (elim exE conjE)
        with None show ?thesis by (simp add: localRel_def)
      qed
      with r show ?thesis by simp
    next
      case (Some p)
      then have "(p, e) \<in> upRel d" by (rule parentElement_upRel)
      from less.IH [OF this] obtain r where
        r: "closestMatch d css s p = Some r" and
        some: "\<forall>a. r = Some a \<longrightarrow> (p, a) \<in> (localRel d)\<^sup>* \<and> matches d css s a \<and>
                 (\<forall>b. (p, b) \<in> (localRel d)\<^sup>* \<and> (b, a) \<in> (localRel d)\<^sup>+ \<longrightarrow> \<not> matches d css s b)" and
        none: "r = None \<longleftrightarrow> (\<forall>a. (p, a) \<in> (localRel d)\<^sup>* \<longrightarrow> \<not> matches d css s a)"
        by (elim exE conjE)
      have r': "closestMatch d css s e = Some r"
        using False Some r by (subst closestMatch.simps) simp
      have step: "(e, p) \<in> localRel d" using Some by (simp add: localRel_def)
      have down: "(p, a) \<in> (localRel d)\<^sup>*" if "(e, a) \<in> (localRel d)\<^sup>*" "a \<noteq> e" for a
      proof -
        from rtrancl_first_step [OF that]
        obtain y where y: "(e, y) \<in> localRel d" "(y, a) \<in> (localRel d)\<^sup>*" by (elim exE conjE)
        with Some have "y = p" by (simp add: localRel_def)
        with y show ?thesis by simp
      qed
      have up: "(e, a) \<in> (localRel d)\<^sup>*" if "(p, a) \<in> (localRel d)\<^sup>*" for a
        using step that by (rule converse_rtrancl_into_rtrancl)
      have some': "\<forall>a. r = Some a \<longrightarrow> (e, a) \<in> (localRel d)\<^sup>* \<and> matches d css s a \<and>
                 (\<forall>b. (e, b) \<in> (localRel d)\<^sup>* \<and> (b, a) \<in> (localRel d)\<^sup>+ \<longrightarrow> \<not> matches d css s b)"
      proof (intro allI impI conjI)
        fix a assume a: "r = Some a"
        with some have pa: "(p, a) \<in> (localRel d)\<^sup>*" and m: "matches d css s a" and
          near: "\<forall>b. (p, b) \<in> (localRel d)\<^sup>* \<and> (b, a) \<in> (localRel d)\<^sup>+ \<longrightarrow> \<not> matches d css s b"
          by simp_all
        from pa show "(e, a) \<in> (localRel d)\<^sup>*" by (rule up)
        from m show "matches d css s a" .
        fix b assume b: "(e, b) \<in> (localRel d)\<^sup>* \<and> (b, a) \<in> (localRel d)\<^sup>+"
        show "\<not> matches d css s b"
        proof (cases "b = e")
          case True
          with False show ?thesis by simp
        next
          case ne: False
          from b have "(e, b) \<in> (localRel d)\<^sup>*" by simp
          from down [OF this ne] b near show ?thesis by simp
        qed
      qed
      have none': "r = None \<longleftrightarrow> (\<forall>a. (e, a) \<in> (localRel d)\<^sup>* \<longrightarrow> \<not> matches d css s a)"
      proof
        assume "r = None"
        with none have n: "\<forall>a. (p, a) \<in> (localRel d)\<^sup>* \<longrightarrow> \<not> matches d css s a" by simp
        show "\<forall>a. (e, a) \<in> (localRel d)\<^sup>* \<longrightarrow> \<not> matches d css s a"
        proof (intro allI impI)
          fix a assume a: "(e, a) \<in> (localRel d)\<^sup>*"
          show "\<not> matches d css s a"
          proof (cases "a = e")
            case True
            with False show ?thesis by simp
          next
            case ne: False
            from down [OF a ne] n show ?thesis by simp
          qed
        qed
      next
        assume n: "\<forall>a. (e, a) \<in> (localRel d)\<^sup>* \<longrightarrow> \<not> matches d css s a"
        have "\<forall>a. (p, a) \<in> (localRel d)\<^sup>* \<longrightarrow> \<not> matches d css s a"
        proof (intro allI impI)
          fix a assume "(p, a) \<in> (localRel d)\<^sup>*"
          then have "(e, a) \<in> (localRel d)\<^sup>*" by (rule up)
          with n show "\<not> matches d css s a" by simp
        qed
        with none show "r = None" by simp
      qed
      from r' some' none' show ?thesis by (intro exI conjI)
    qed
  qed
qed

lemma closestMatch_returns:
  assumes "wf (upRel d)"
  shows "\<exists>r. closestMatch d css s e = Some r"
  using closestMatch_nearest [OF assms, of css s e] by (elim exE conjE) (rule exI)









lemma isInsideScope_None: "isInsideScope d scope None = Some False"
  by (subst isInsideScope.simps) simp

lemma isInsideScope_Some:
  "contains d scope e = Some b \<Longrightarrow> enclosingShadowHost d e = Some ho \<Longrightarrow>
   isInsideScope d scope (Some e) = (if b then Some True else isInsideScope d scope ho)"
  by (subst isInsideScope.simps) simp

lemma isInsideScope_result:
  assumes "wf (upRel d)"
  shows "isInsideScope d scope (Some e) =
           Some (\<exists>h. (e, h) \<in> (hostRel d)\<^sup>* \<and> contains d scope h = Some True)"
proof -
  have "wf ((upRel d)\<^sup>+)" using assms by (rule wf_trancl)
  then show ?thesis
  proof (induction e rule: wf_induct_rule)
    case (less e)
    obtain b where b: "contains d scope e = Some b"
      using contains_returns [OF assms] by blast
    obtain ho where ho: "enclosingShadowHost d e = Some ho"
      and up: "\<forall>h. ho = Some h \<longrightarrow> (h, e) \<in> (upRel d)\<^sup>+"
      using enclosingShadowHost_returns [OF assms] by blast
    note unfold = isInsideScope_Some [OF b ho]
    show ?case
    proof (cases b)
      case True
      have "(e, e) \<in> (hostRel d)\<^sup>*" by (rule rtrancl.rtrancl_refl)
      moreover from b True have "contains d scope e = Some True" by simp
      ultimately have "\<exists>h. (e, h) \<in> (hostRel d)\<^sup>* \<and> contains d scope h = Some True"
        by (intro exI conjI)
      then have "Some (\<exists>h. (e, h) \<in> (hostRel d)\<^sup>* \<and> contains d scope h = Some True) = Some True"
        by (simp only:)
      moreover from unfold True have "isInsideScope d scope (Some e) = Some True" by simp
      ultimately show ?thesis by (simp only:)
    next
      case False
      have first: "\<exists>y. ho = Some y \<and> (y, h) \<in> (hostRel d)\<^sup>*"
        if "(e, h) \<in> (hostRel d)\<^sup>*" "contains d scope h = Some True" for h
      proof -
        from that(2) b False have "h \<noteq> e" by auto
        from rtrancl_first_step [OF that(1) this]
        obtain y where "(e, y) \<in> hostRel d" "(y, h) \<in> (hostRel d)\<^sup>*" by (elim exE conjE)
        with ho show ?thesis by (simp add: hostRel_def)
      qed
      show ?thesis
      proof (cases ho)
        case None
        have "\<not> (\<exists>h. (e, h) \<in> (hostRel d)\<^sup>* \<and> contains d scope h = Some True)"
        proof
          assume "\<exists>h. (e, h) \<in> (hostRel d)\<^sup>* \<and> contains d scope h = Some True"
          then obtain h where h: "(e, h) \<in> (hostRel d)\<^sup>*" "contains d scope h = Some True"
            by (elim exE conjE)
          from first [OF h] None show False by simp
        qed
        then have "Some (\<exists>h. (e, h) \<in> (hostRel d)\<^sup>* \<and> contains d scope h = Some True) = Some False"
          by (simp only:)
        moreover from unfold None False have "isInsideScope d scope (Some e) = Some False"
          by (simp add: isInsideScope_None)
        ultimately show ?thesis by (simp only:)
      next
        case (Some h')
        with up have "(h', e) \<in> (upRel d)\<^sup>+" by simp
        then have IH: "isInsideScope d scope (Some h') =
            Some (\<exists>h. (h', h) \<in> (hostRel d)\<^sup>* \<and> contains d scope h = Some True)"
          by (rule less.IH)
        have step: "(e, h') \<in> hostRel d" using ho Some by (simp add: hostRel_def)
        have "(\<exists>h. (e, h) \<in> (hostRel d)\<^sup>* \<and> contains d scope h = Some True) =
              (\<exists>h. (h', h) \<in> (hostRel d)\<^sup>* \<and> contains d scope h = Some True)"
        proof
          assume "\<exists>h. (e, h) \<in> (hostRel d)\<^sup>* \<and> contains d scope h = Some True"
          then obtain h where h: "(e, h) \<in> (hostRel d)\<^sup>*" "contains d scope h = Some True"
            by (elim exE conjE)
          from first [OF h] Some have "(h', h) \<in> (hostRel d)\<^sup>*" by simp
          with h(2) show "\<exists>h. (h', h) \<in> (hostRel d)\<^sup>* \<and> contains d scope h = Some True"
            by (intro exI conjI)
        next
          assume "\<exists>h. (h', h) \<in> (hostRel d)\<^sup>* \<and> contains d scope h = Some True"
          then obtain h where h: "(h', h) \<in> (hostRel d)\<^sup>*" "contains d scope h = Some True"
            by (elim exE conjE)
          from step h(1) have "(e, h) \<in> (hostRel d)\<^sup>*" by (rule converse_rtrancl_into_rtrancl)
          with h(2) show "\<exists>h. (e, h) \<in> (hostRel d)\<^sup>* \<and> contains d scope h = Some True"
            by (intro exI conjI)
        qed
        moreover from unfold Some False have
          "isInsideScope d scope (Some e) = isInsideScope d scope (Some h')" by simp
        ultimately show ?thesis using IH by (simp only:)
      qed
    qed
  qed
qed

lemma closestCrossShadow_None: "closestCrossShadow d None css = Some (Inr None)"
  by (subst closestCrossShadow.simps) simp

lemma closestCrossShadow_invalid:
  "\<not> selectorValid d css \<Longrightarrow> closestCrossShadow d (Some e) css = Some (Inl SyntaxError)"
  by (subst closestCrossShadow.simps) (simp add: closest_def)

lemma closestCrossShadow_found:
  "selectorValid d css \<Longrightarrow> closestMatch d css e e = Some (Some a) \<Longrightarrow>
   closestCrossShadow d (Some e) css = Some (Inr (Some a))"
  by (subst closestCrossShadow.simps) (simp add: closest_def)

lemma closestCrossShadow_escape:
  "selectorValid d css \<Longrightarrow> closestMatch d css e e = Some None \<Longrightarrow>
   enclosingShadowHost d e = Some ho \<Longrightarrow>
   closestCrossShadow d (Some e) css = closestCrossShadow d ho css"
  by (subst closestCrossShadow.simps) (simp add: closest_def)

text \<open>What \<^verbatim>\<open>closestCrossShadow\<close> returns: a match of the local chain of an element \<open>x\<close>
  of the host chain, judged with \<open>x\<close> as the scoping root, as the call of \<^verbatim>\<open>closest\<close> on
  \<open>x\<close> judges it.\<close>

lemma closestCrossShadow_result:
  assumes "wf (upRel d)" and valid: "selectorValid d css"
  shows "\<exists>r. closestCrossShadow d (Some e) css = Some (Inr r) \<and>
           (r = None \<longleftrightarrow>
              (\<forall>x a. (e, x) \<in> (hostRel d)\<^sup>* \<longrightarrow> (x, a) \<in> (localRel d)\<^sup>* \<longrightarrow> \<not> matches d css x a)) \<and>
           (\<forall>a. r = Some a \<longrightarrow>
              (\<exists>x. (e, x) \<in> (hostRel d)\<^sup>* \<and> (x, a) \<in> (localRel d)\<^sup>* \<and> matches d css x a))"
proof -
  have "wf ((upRel d)\<^sup>+)" using assms(1) by (rule wf_trancl)
  then show ?thesis
  proof (induction e rule: wf_induct_rule)
    case (less e)
    from closestMatch_nearest [OF assms(1), of css e e] obtain r0 where
      r0: "closestMatch d css e e = Some r0" and
      found: "\<forall>a. r0 = Some a \<longrightarrow> (e, a) \<in> (localRel d)\<^sup>* \<and> matches d css e a \<and>
                 (\<forall>b. (e, b) \<in> (localRel d)\<^sup>* \<and> (b, a) \<in> (localRel d)\<^sup>+ \<longrightarrow> \<not> matches d css e b)" and
      missed: "r0 = None \<longleftrightarrow> (\<forall>a. (e, a) \<in> (localRel d)\<^sup>* \<longrightarrow> \<not> matches d css e a)"
      by (elim exE conjE)
    from enclosingShadowHost_returns [OF assms(1), of e] obtain ho where
      ho: "enclosingShadowHost d e = Some ho" and
      up: "\<forall>h. ho = Some h \<longrightarrow> (h, e) \<in> (upRel d)\<^sup>+"
      by (elim exE conjE)
    have refl: "(e, e) \<in> (hostRel d)\<^sup>*" by (rule rtrancl.rtrancl_refl)
    show ?case
    proof (cases r0)
      case (Some a)
      with r0 valid have res: "closestCrossShadow d (Some e) css = Some (Inr (Some a))"
        by (simp add: closestCrossShadow_found)
      from found Some have a: "(e, a) \<in> (localRel d)\<^sup>*" "matches d css e a" by simp_all
      with refl have ex: "\<exists>x. (e, x) \<in> (hostRel d)\<^sup>* \<and> (x, a) \<in> (localRel d)\<^sup>* \<and> matches d css x a"
        by (intro exI conjI)
      have no: "\<not> (\<forall>x a. (e, x) \<in> (hostRel d)\<^sup>* \<longrightarrow> (x, a) \<in> (localRel d)\<^sup>* \<longrightarrow> \<not> matches d css x a)"
      proof
        assume "\<forall>x a. (e, x) \<in> (hostRel d)\<^sup>* \<longrightarrow> (x, a) \<in> (localRel d)\<^sup>* \<longrightarrow> \<not> matches d css x a"
        then have "(e, e) \<in> (hostRel d)\<^sup>* \<longrightarrow> (e, a) \<in> (localRel d)\<^sup>* \<longrightarrow> \<not> matches d css e a"
          by (elim allE)
        with refl a show False by simp
      qed
      from res ex no show ?thesis by simp
    next
      case None
      with r0 ho valid have esc: "closestCrossShadow d (Some e) css = closestCrossShadow d ho css"
        by (simp add: closestCrossShadow_escape)
      from missed None have miss: "\<And>a. (e, a) \<in> (localRel d)\<^sup>* \<Longrightarrow> \<not> matches d css e a" by simp
      have first: "\<exists>h. ho = Some h \<and> (h, x) \<in> (hostRel d)\<^sup>*"
        if "(e, x) \<in> (hostRel d)\<^sup>*" "x \<noteq> e" for x
      proof -
        from rtrancl_first_step [OF that]
        obtain y where "(e, y) \<in> hostRel d" "(y, x) \<in> (hostRel d)\<^sup>*" by (elim exE conjE)
        with ho show ?thesis by (simp add: hostRel_def)
      qed
      show ?thesis
      proof (cases ho)
        case None
        have "\<forall>x a. (e, x) \<in> (hostRel d)\<^sup>* \<longrightarrow> (x, a) \<in> (localRel d)\<^sup>* \<longrightarrow> \<not> matches d css x a"
        proof (intro allI impI)
          fix x a assume x: "(e, x) \<in> (hostRel d)\<^sup>*" and a: "(x, a) \<in> (localRel d)\<^sup>*"
          have "x = e"
          proof (rule ccontr)
            assume "x \<noteq> e"
            from first [OF x this] None show False by simp
          qed
          with a miss show "\<not> matches d css x a" by simp
        qed
        moreover from esc None have "closestCrossShadow d (Some e) css = Some (Inr None)"
          by (simp add: closestCrossShadow_None)
        ultimately show ?thesis by simp
      next
        case (Some h)
        with up have he: "(h, e) \<in> (upRel d)\<^sup>+" by simp
        from less.IH [OF he] obtain r where
          res: "closestCrossShadow d (Some h) css = Some (Inr r)" and
          none: "r = None \<longleftrightarrow>
              (\<forall>x a. (h, x) \<in> (hostRel d)\<^sup>* \<longrightarrow> (x, a) \<in> (localRel d)\<^sup>* \<longrightarrow> \<not> matches d css x a)" and
          some: "\<forall>a. r = Some a \<longrightarrow>
              (\<exists>x. (h, x) \<in> (hostRel d)\<^sup>* \<and> (x, a) \<in> (localRel d)\<^sup>* \<and> matches d css x a)"
          by (elim exE conjE)
        have step: "(e, h) \<in> hostRel d" using ho Some by (simp add: hostRel_def)
        have sub: "(e, x) \<in> (hostRel d)\<^sup>*" if "(h, x) \<in> (hostRel d)\<^sup>*" for x
          using step that by (rule converse_rtrancl_into_rtrancl)
        have eq: "(\<forall>x a. (h, x) \<in> (hostRel d)\<^sup>* \<longrightarrow> (x, a) \<in> (localRel d)\<^sup>* \<longrightarrow> \<not> matches d css x a) =
                  (\<forall>x a. (e, x) \<in> (hostRel d)\<^sup>* \<longrightarrow> (x, a) \<in> (localRel d)\<^sup>* \<longrightarrow> \<not> matches d css x a)"
        proof
          assume n: "\<forall>x a. (h, x) \<in> (hostRel d)\<^sup>* \<longrightarrow> (x, a) \<in> (localRel d)\<^sup>* \<longrightarrow> \<not> matches d css x a"
          show "\<forall>x a. (e, x) \<in> (hostRel d)\<^sup>* \<longrightarrow> (x, a) \<in> (localRel d)\<^sup>* \<longrightarrow> \<not> matches d css x a"
          proof (intro allI impI)
            fix x a assume x: "(e, x) \<in> (hostRel d)\<^sup>*" and a: "(x, a) \<in> (localRel d)\<^sup>*"
            show "\<not> matches d css x a"
            proof (cases "x = e")
              case True
              with a miss show ?thesis by simp
            next
              case False
              from first [OF x False] Some have "(h, x) \<in> (hostRel d)\<^sup>*" by simp
              with n a show ?thesis by simp
            qed
          qed
        next
          assume n: "\<forall>x a. (e, x) \<in> (hostRel d)\<^sup>* \<longrightarrow> (x, a) \<in> (localRel d)\<^sup>* \<longrightarrow> \<not> matches d css x a"
          show "\<forall>x a. (h, x) \<in> (hostRel d)\<^sup>* \<longrightarrow> (x, a) \<in> (localRel d)\<^sup>* \<longrightarrow> \<not> matches d css x a"
          proof (intro allI impI)
            fix x a assume x: "(h, x) \<in> (hostRel d)\<^sup>*" and a: "(x, a) \<in> (localRel d)\<^sup>*"
            from sub [OF x] n a show "\<not> matches d css x a" by simp
          qed
        qed
        from none eq have none': "r = None \<longleftrightarrow>
              (\<forall>x a. (e, x) \<in> (hostRel d)\<^sup>* \<longrightarrow> (x, a) \<in> (localRel d)\<^sup>* \<longrightarrow> \<not> matches d css x a)"
          by (simp only:)
        have some': "\<forall>a. r = Some a \<longrightarrow>
              (\<exists>x. (e, x) \<in> (hostRel d)\<^sup>* \<and> (x, a) \<in> (localRel d)\<^sup>* \<and> matches d css x a)"
        proof (intro allI impI)
          fix a assume "r = Some a"
          with some obtain x where
            x: "(h, x) \<in> (hostRel d)\<^sup>*" "(x, a) \<in> (localRel d)\<^sup>*" "matches d css x a"
            by (elim allE impE exE conjE)
          from sub [OF x(1)] x(2,3)
          show "\<exists>x. (e, x) \<in> (hostRel d)\<^sup>* \<and> (x, a) \<in> (localRel d)\<^sup>* \<and> matches d css x a"
            by (intro exI conjI)
        qed
        from esc Some res have "closestCrossShadow d (Some e) css = Some (Inr r)" by simp
        with none' some' show ?thesis by (intro exI conjI)
      qed
    qed
  qed
qed

lemma isInsideScope_returns:
  assumes "wf (upRel d)"
  shows "\<exists>b. isInsideScope d scope element = Some b"
proof (cases element)
  case None
  have "isInsideScope d scope None = Some False" by (rule isInsideScope_None)
  with None show ?thesis by (intro exI) (simp only:)
next
  case (Some e)
  from isInsideScope_result [OF assms, of scope e] Some show ?thesis
    by (intro exI) (simp only:)
qed

lemma closestCrossShadow_returns:
  assumes "wf (upRel d)"
  shows "\<exists>r. closestCrossShadow d element css = Some r"
proof (cases element)
  case None
  have "closestCrossShadow d None css = Some (Inr None)" by (rule closestCrossShadow_None)
  with None show ?thesis by (intro exI) (simp only:)
next
  case (Some e)
  show ?thesis
  proof (cases "selectorValid d css")
    case True
    from closestCrossShadow_result [OF assms True, of e] Some show ?thesis
      by (elim exE conjE) simp
  next
    case False
    with Some show ?thesis by (simp add: closestCrossShadow_invalid)
  qed
qed

subsection \<open>The example documents are well formed\<close>

lemma wf_upRel_shadowDom: "wf (upRel shadowDom)"
proof (rule wf_subset)
  show "wf (measure (\<lambda>n::nat. n))" by (rule wf_measure)
  show "upRel shadowDom \<subseteq> measure (\<lambda>n. n)"
    by (auto simp: upRel_def shadowDom_def split: if_splits)
qed

lemma shadowDom_span_host: "enclosingShadowHost shadowDom 4 = Some (Some 2)"
  by (simp add: enclosingShadowHost.simps parentElement_def parentElementOrShadowHost_def
      shadowDom_def)



lemma shadowDom_span_no_local_match:
  "closestMatch shadowDom ''details,summary'' 4 4 = Some None"
  by (simp add: closestMatch.simps parentElement_def shadowDom_def)


section \<open>Shadow traversal: the claims\<close>





text \<open>
  C8. In a document whose parent links and shadow-host links are acyclic, every call of
  \<^verbatim>\<open>isInsideScope\<close> and of \<^verbatim>\<open>closestCrossShadow\<close> returns (the latter possibly by the host's
  \<^verbatim>\<open>SyntaxError\<close>): neither loop runs forever.
\<close>

theorem isInsideScope_closestCrossShadow_terminate:
  assumes "acyclicLinks d"
  shows "(\<exists>b. isInsideScope d scope element = Some b) \<and>
         (\<exists>r. closestCrossShadow d element css = Some r)"
proof -
  from assms have wf: "wf (upRel d)" by (simp add: acyclicLinks_def)
  from isInsideScope_returns [OF wf] closestCrossShadow_returns [OF wf]
  show ?thesis by (intro conjI)
qed

theorem isInsideScope_closestCrossShadow_terminate_witness:
  "acyclicLinks shadowDom \<and>
   (\<exists>b. isInsideScope shadowDom 1 (Some 4) = Some b) \<and>
   (\<exists>r. closestCrossShadow shadowDom (Some 4) ''details,summary'' = Some r)"
proof -
  have a: "acyclicLinks shadowDom" by (simp add: acyclicLinks_def wf_upRel_shadowDom)
  from isInsideScope_closestCrossShadow_terminate [OF a, of 1 "Some 4" "''details,summary''"] a
  show ?thesis by (elim conjE) (intro conjI)
qed

text \<open>
  C9. \<^verbatim>\<open>enclosingShadowRootOrDocument\<close> is to return the root only when it is a Document or
  a shadow root. For the element 4 of \<open>fragmentDom\<close>, whose root 3 is a plain document
  fragment without a host, the code returns that fragment.
\<close>

theorem enclosingShadowRootOrDocument_returns_plain_fragment:
  "nodeType fragmentDom 3 = 11 \<and> host fragmentDom 3 = None \<and>
   parentNode fragmentDom 4 = Some 3 \<and> parentNode fragmentDom 3 = None \<and>
   enclosingShadowRootOrDocument fragmentDom 4 = Some (Some 3)"
  by (simp add: enclosingShadowRootOrDocument.simps fragmentDom_def shadowDom_def)

section \<open>Visibility: unfolding, termination and the loops\<close>

lemma isElementVisible_unfold:
  "isElementVisible d element =
     (case getElementComputedStyle d element None of
        None \<Rightarrow> Some True
      | Some style \<Rightarrow>
          if display style = ''contents'' then
            contentsChildrenVisible d (childNodes d element)
          else
            do {
              styleVisible \<leftarrow> isElementStyleVisibilityVisible d element (Some style);
              if \<not> styleVisible then Some False
              else
                let rect = getBoundingClientRect d element;
                    visible = (width rect > 0 \<and> height rect > 0)
                in if \<not> visible \<and> display style = ''inline'' \<and> height rect > 0 then
                     inlineChildrenVisible d (childNodes d element)
                   else Some visible
            })"
  unfolding isElementVisible_def contentsChildrenVisible_def inlineChildrenVisible_def
  by (subst isElementVisible_task.simps) simp

lemma contentsChildrenVisible_Nil: "contentsChildrenVisible d [] = Some False"
  unfolding contentsChildrenVisible_def by (subst isElementVisible_task.simps) simp

lemma contentsChildrenVisible_Cons:
  "contentsChildrenVisible d (child # rest) =
     do {
       elementVisible \<leftarrow>
         (if nodeType d child = 1 then isElementVisible d child else Some False);
       if elementVisible then Some True
       else if nodeType d child = 3 \<and> isVisibleTextNode d child then Some True
       else contentsChildrenVisible d rest
     }"
  unfolding isElementVisible_def contentsChildrenVisible_def
  by (subst isElementVisible_task.simps) simp

lemma inlineChildrenVisible_Nil: "inlineChildrenVisible d [] = Some False"
  unfolding inlineChildrenVisible_def by (subst isElementVisible_task.simps) simp

lemma inlineChildrenVisible_Cons:
  "inlineChildrenVisible d (child # rest) =
     (if nodeType d child = 1 then
        do {
          inlineVisible \<leftarrow>
            (if map_option display (getElementComputedStyle d child None) = Some ''inline''
             then isElementVisible d child
             else Some False);
          if inlineVisible then Some True
          else inlineChildrenVisible d rest
        }
      else inlineChildrenVisible d rest)"
  unfolding isElementVisible_def inlineChildrenVisible_def
  by (subst isElementVisible_task.simps) simp

lemma contentsChildrenVisible_result:
  assumes "\<forall>c\<in>set cs. \<exists>b. isElementVisible d c = Some b"
  shows "contentsChildrenVisible d cs =
           Some (\<exists>c\<in>set cs. (nodeType d c = 1 \<and> isElementVisible d c = Some True) \<or>
                              (nodeType d c = 3 \<and> isVisibleTextNode d c))"
  using assms
proof (induction cs)
  case Nil
  then show ?case by (simp add: contentsChildrenVisible_Nil)
next
  case (Cons child rest)
  then obtain b where b: "isElementVisible d child = Some b" by auto
  from Cons have IH: "contentsChildrenVisible d rest =
           Some (\<exists>c\<in>set rest. (nodeType d c = 1 \<and> isElementVisible d c = Some True) \<or>
                              (nodeType d c = 3 \<and> isVisibleTextNode d c))" by simp
  show ?case
    by (simp add: contentsChildrenVisible_Cons b IH) auto
qed

lemma inlineChildrenVisible_result:
  assumes "\<forall>c\<in>set cs. \<exists>b. isElementVisible d c = Some b"
  shows "inlineChildrenVisible d cs =
           Some (\<exists>c\<in>set cs. nodeType d c = 1 \<and>
                   map_option display (getElementComputedStyle d c None) = Some ''inline'' \<and>
                   isElementVisible d c = Some True)"
  using assms
proof (induction cs)
  case Nil
  then show ?case by (simp add: inlineChildrenVisible_Nil)
next
  case (Cons child rest)
  then obtain b where b: "isElementVisible d child = Some b" by auto
  from Cons have IH: "inlineChildrenVisible d rest =
           Some (\<exists>c\<in>set rest. nodeType d c = 1 \<and>
                   map_option display (getElementComputedStyle d c None) = Some ''inline'' \<and>
                   isElementVisible d c = Some True)" by simp
  show ?case
    by (simp add: inlineChildrenVisible_Cons b IH) auto
qed

lemma isElementStyleVisibilityVisible_returns:
  assumes "wf (upRel d)"
  shows "\<exists>b. isElementStyleVisibilityVisible d e styleArg = Some b"
proof -
  obtain r where "closestMatch d ''details,summary'' e e = Some r"
    using closestMatch_returns [OF assms] by blast
  then show ?thesis
    by (auto simp: isElementStyleVisibilityVisible_def split: option.splits)
qed

lemma isElementVisible_returns:
  assumes "wf (upRel d)" and "wf (childRel d)"
  shows "\<exists>b. isElementVisible d e = Some b"
  using assms(2)
proof (induction e rule: wf_induct_rule)
  case (less e)
  then have kids: "\<forall>c\<in>set (childNodes d e). \<exists>b. isElementVisible d c = Some b"
    by (simp add: childRel_def)
  note contents = contentsChildrenVisible_result [OF kids]
  note inline = inlineChildrenVisible_result [OF kids]
  show ?case
  proof (cases "getElementComputedStyle d e None")
    case None
    then have "isElementVisible d e = Some True" by (simp add: isElementVisible_unfold)
    then show ?thesis by (intro exI)
  next
    case (Some s)
    obtain sv where sv: "isElementStyleVisibilityVisible d e (Some s) = Some sv"
      using isElementStyleVisibilityVisible_returns [OF assms(1)] by blast
    show ?thesis
      by (auto simp: isElementVisible_unfold Some sv contents inline Let_def)
  qed
qed


lemma visDom_parent_less: "parentNode visDom n = Some p \<Longrightarrow> p < n"
  by (simp add: visDom_def split: if_splits) (elim disjE; simp)+

lemma wf_upRel_visDom: "wf (upRel visDom)"
proof (rule wf_subset)
  show "wf (measure (\<lambda>n::nat. n))" by (rule wf_measure)
  have h: "host visDom n = None" for n by (simp add: visDom_def)
  show "upRel visDom \<subseteq> measure (\<lambda>n. n)"
    by (clarsimp simp: upRel_def h visDom_parent_less)
qed

lemma wf_childRel_visDom: "wf (childRel visDom)"
proof (rule wf_subset)
  show "wf (measure (\<lambda>n::nat. 20 - n))" by (rule wf_measure)
  show "childRel visDom \<subseteq> measure (\<lambda>n. 20 - n)"
    by (auto simp: childRel_def visDom_def split: if_splits)
qed

lemma acyclicDom_visDom: "acyclicDom visDom"
  by (simp add: acyclicDom_def wf_upRel_visDom wf_childRel_visDom)

lemma visDom_fields:
  "nodeType visDom = (\<lambda>n. if n = 0 then 9 else if n = 2 \<or> n = 8 \<or> n = 11 then 3 else 1)"
  "childNodes visDom = (\<lambda>n. if n = 0 then [1, 6, 7, 10] else if n = 1 then [2, 3]
                       else if n = 3 then [4] else if n = 7 then [8]
                       else if n = 10 then [11, 12] else [])"
  "ownerDocument visDom = (\<lambda>n. if n = 0 \<or> n = 9 then None else Some 0)"
  "defaultView visDom = (\<lambda>n. if n = 0 then Some 0 else None)"
  "getComputedStyle visDom = (\<lambda>view e pseudo.
        \<lparr>display = (if e = 1 \<or> e = 7 \<or> e = 10 then ''contents''
                    else if e = 3 \<or> e = 4 then ''inline'' else ''block''),
         visibility = (if e = 7 then ''hidden'' else ''visible'')\<rparr>)"
  "getBoundingClientRect visDom = (\<lambda>n. if n = 1 \<or> n = 7 \<or> n = 10 then \<lparr>width = 0, height = 0\<rparr>
                                  else if n = 3 then \<lparr>width = 0, height = 10\<rparr>
                                  else \<lparr>width = 10, height = 10\<rparr>)"
  "rangeBoundingClientRect visDom = (\<lambda>n. if n = 8 then \<lparr>width = 5, height = 5\<rparr>
                                    else \<lparr>width = 0, height = 0\<rparr>)"
  "hasCheckVisibility visDom = True"
  "checkVisibility visDom = (\<lambda>n. n \<noteq> 6 \<and> n \<noteq> 7 \<and> n \<noteq> 12)"
  by (simp_all add: visDom_def)

lemma shadowDom_fields:
  "nodeType shadowDom = (\<lambda>n. if n = 0 then 9 else if n = 3 then 11 else 1)"
  "nodeName shadowDom = (\<lambda>n. if n = 0 then ''#document'' else if n = 1 then ''DETAILS''
                     else if n = 2 then ''DIV'' else if n = 3 then ''#document-fragment''
                     else ''SPAN'')"
  "parentNode shadowDom = (\<lambda>n. if n = 1 then Some 0 else if n = 2 then Some 1
                       else if n = 4 then Some 3 else None)"
  "ownerDocument shadowDom = (\<lambda>n. if n = 0 then None else Some 0)"
  "defaultView shadowDom = (\<lambda>n. if n = 0 then Some 0 else None)"
  "getComputedStyle shadowDom = (\<lambda>view e pseudo. \<lparr>display = ''block'', visibility = ''visible''\<rparr>)"
  "hasCheckVisibility shadowDom = False"
  "detailsOpen shadowDom = (\<lambda>n. False)"
  "selectorValid shadowDom =
     (\<lambda>css. css = ''details,summary'' \<or> css = ''div'' \<or> css = '':not(:scope)'')"
  "matches shadowDom =
     (\<lambda>css scope n. (css = ''details,summary'' \<and> n = 1) \<or> (css = ''div'' \<and> n = 2) \<or>
                    (css = '':not(:scope)'' \<and> n \<noteq> scope))"
  by (simp_all add: shadowDom_def)

lemma visDom_inner_span_visible: "isElementVisible visDom 4 = Some True"
  by (simp add: isElementVisible_unfold getElementComputedStyle_def
      isElementStyleVisibilityVisible_def visDom_fields)

lemma visDom_outer_span_visible: "isElementVisible visDom 3 = Some True"
  by (simp add: isElementVisible_unfold [of visDom 3] getElementComputedStyle_def
      isElementStyleVisibilityVisible_def inlineChildrenVisible_Cons
      visDom_inner_span_visible visDom_fields)

lemma visDom_block_rejected: "isElementVisible visDom 6 = Some False"
  by (simp add: isElementVisible_unfold getElementComputedStyle_def
      isElementStyleVisibilityVisible_def visDom_fields)

lemma visDom_hidden_contents_style: "isElementStyleVisibilityVisible visDom 7 None = Some False"
  by (simp add: getElementComputedStyle_def isElementStyleVisibilityVisible_def visDom_fields)

lemma visDom_rejected_child: "isElementVisible visDom 12 = Some False"
  by (simp add: isElementVisible_unfold getElementComputedStyle_def
      isElementStyleVisibilityVisible_def visDom_fields)

lemma shadowDom_div_local_match:
  "closestMatch shadowDom ''details,summary'' 2 2 = Some (Some 1)"
  by (simp add: closestMatch.simps parentElement_def shadowDom_fields)

lemma shadowDom_span_style_visible:
  "isElementStyleVisibilityVisible shadowDom 4 None = Some True"
  by (simp add: isElementStyleVisibilityVisible_def getElementComputedStyle_def
      shadowDom_span_no_local_match shadowDom_fields)

lemma shadowDom_div_style_hidden:
  "isElementStyleVisibilityVisible shadowDom 2 None = Some False"
  by (simp add: isElementStyleVisibilityVisible_def getElementComputedStyle_def
      shadowDom_div_local_match shadowDom_fields)

lemma shadowDom_span_cross_match:
  "closestCrossShadow shadowDom (Some 4) ''details,summary'' = Some (Inr (Some 1))"
proof -
  have v: "selectorValid shadowDom ''details,summary''" by (simp add: shadowDom_def)
  have "closestCrossShadow shadowDom (Some 4) ''details,summary'' =
        closestCrossShadow shadowDom (Some 2) ''details,summary''"
    using v shadowDom_span_no_local_match shadowDom_span_host
    by (rule closestCrossShadow_escape)
  also have "\<dots> = Some (Inr (Some 1))"
    using v shadowDom_div_local_match by (rule closestCrossShadow_found)
  finally show ?thesis .
qed


section \<open>Visibility: the claims\<close>

text \<open>
  C1, as stated: without \<^verbatim>\<open>checkVisibility\<close> the style check finds the nearest details or
  summary ancestor with \<^verbatim>\<open>closestCrossShadow\<close> and reports the element not visible when
  that ancestor is a collapsed details element other than the element. For the span 4 of
  \<open>shadowDom\<close>, \<^verbatim>\<open>closestCrossShadow\<close> finds the collapsed details element 1 across the
  shadow boundary, yet the check reports the span visible.
\<close>

theorem isElementStyleVisibilityVisible_ignores_details_across_shadow:
  "\<not> hasCheckVisibility shadowDom \<and>
   closestCrossShadow shadowDom (Some 4) ''details,summary'' = Some (Inr (Some 1)) \<and>
   (1::node) \<noteq> 4 \<and> nodeName shadowDom 1 = ''DETAILS'' \<and> \<not> detailsOpen shadowDom 1 \<and>
   isElementStyleVisibilityVisible shadowDom 4 None = Some True"
  using shadowDom_span_cross_match shadowDom_span_style_visible
  by (simp add: shadowDom_fields)

text \<open>
  C1, amended: without \<^verbatim>\<open>checkVisibility\<close>, for an element whose style resolves, in a
  document with acyclic links, the style check finds the nearest of the element and its
  parent elements that matches \<^verbatim>\<open>details,summary\<close> with the native \<^verbatim>\<open>closest\<close>, a walk
  that stays in the element's own tree and does not cross a shadow boundary; it reports
  the element not visible exactly when that match is a collapsed \<^verbatim>\<open>DETAILS\<close> element
  other than the element itself, or the resolved CSS visibility is not \<^verbatim>\<open>visible\<close>.
\<close>

theorem isElementStyleVisibilityVisible_fallback_local_closest:
  assumes "acyclicLinks d" and "\<not> hasCheckVisibility d"
    and "getElementComputedStyle d e None = Some s"
  shows "\<exists>found. closestMatch d ''details,summary'' e e = Some found \<and>
           (\<forall>a. found = Some a \<longrightarrow>
                 (e, a) \<in> (localRel d)\<^sup>* \<and> matches d ''details,summary'' e a \<and>
                 (\<forall>b. (e, b) \<in> (localRel d)\<^sup>* \<and> (b, a) \<in> (localRel d)\<^sup>+ \<longrightarrow>
                      \<not> matches d ''details,summary'' e b)) \<and>
           (found = None \<longleftrightarrow>
              (\<forall>a. (e, a) \<in> (localRel d)\<^sup>* \<longrightarrow> \<not> matches d ''details,summary'' e a)) \<and>
           isElementStyleVisibilityVisible d e None =
             Some (\<not> (\<exists>ds. found = Some ds \<and> ds \<noteq> e \<and> nodeName d ds = ''DETAILS'' \<and>
                          \<not> detailsOpen d ds) \<and>
                   visibility s = ''visible'')"
proof -
  from assms(1) have wf: "wf (upRel d)" by (simp add: acyclicLinks_def)
  from closestMatch_nearest [OF wf, of "''details,summary''" e e] obtain found where
    f: "closestMatch d ''details,summary'' e e = Some found" and
    some: "\<forall>a. found = Some a \<longrightarrow>
                 (e, a) \<in> (localRel d)\<^sup>* \<and> matches d ''details,summary'' e a \<and>
                 (\<forall>b. (e, b) \<in> (localRel d)\<^sup>* \<and> (b, a) \<in> (localRel d)\<^sup>+ \<longrightarrow>
                      \<not> matches d ''details,summary'' e b)" and
    none: "found = None \<longleftrightarrow>
              (\<forall>a. (e, a) \<in> (localRel d)\<^sup>* \<longrightarrow> \<not> matches d ''details,summary'' e a)"
    by (elim exE conjE)
  have "isElementStyleVisibilityVisible d e None =
             Some (\<not> (\<exists>ds. found = Some ds \<and> ds \<noteq> e \<and> nodeName d ds = ''DETAILS'' \<and>
                          \<not> detailsOpen d ds) \<and>
                   visibility s = ''visible'')"
    using assms(2,3) f
    by (cases found) (auto simp: isElementStyleVisibilityVisible_def)
  with f some none show ?thesis by (intro exI conjI)
qed

theorem isElementStyleVisibilityVisible_fallback_local_closest_witness:
  "acyclicLinks shadowDom \<and> \<not> hasCheckVisibility shadowDom \<and>
   getElementComputedStyle shadowDom 2 None = Some \<lparr>display = ''block'', visibility = ''visible''\<rparr> \<and>
   closestMatch shadowDom ''details,summary'' 2 2 = Some (Some 1) \<and>
   isElementStyleVisibilityVisible shadowDom 2 None = Some False"
proof -
  have a: "acyclicLinks shadowDom" by (simp add: acyclicLinks_def wf_upRel_shadowDom)
  have h: "\<not> hasCheckVisibility shadowDom" by (simp add: shadowDom_fields)
  have s: "getElementComputedStyle shadowDom 2 None =
             Some \<lparr>display = ''block'', visibility = ''visible''\<rparr>"
    by (simp add: getElementComputedStyle_def shadowDom_fields)
  from isElementStyleVisibilityVisible_fallback_local_closest [OF a h s]
  obtain found where
    "closestMatch shadowDom ''details,summary'' 2 2 = Some found" and
    r: "isElementStyleVisibilityVisible shadowDom 2 None =
             Some (\<not> (\<exists>ds. found = Some ds \<and> ds \<noteq> 2 \<and> nodeName shadowDom ds = ''DETAILS'' \<and>
                          \<not> detailsOpen shadowDom ds) \<and>
                   visibility \<lparr>display = ''block'', visibility = ''visible''\<rparr> = ''visible'')"
    by (elim exE conjE)
  with shadowDom_div_local_match have "found = Some 1" by simp
  with r have "isElementStyleVisibilityVisible shadowDom 2 None = Some False"
    by (simp add: shadowDom_fields)
  with a h s shadowDom_div_local_match show ?thesis by (intro conjI)
qed

text \<open>
  C2. In a well-formed document, for an element whose resolved style has
  \<^verbatim>\<open>display: contents\<close>, \<^verbatim>\<open>isElementVisible\<close> returns true if and only if some direct child
  is an element child for which \<^verbatim>\<open>isElementVisible\<close> returns true or a text child whose
  measured range box has strictly positive width and height; with no child it returns
  false, so the element is never visible on its own account.
\<close>

theorem isElementVisible_display_contents:
  assumes "acyclicDom d" and "getElementComputedStyle d e None = Some s"
    and "display s = ''contents''"
  shows "isElementVisible d e =
           Some (\<exists>c\<in>set (childNodes d e).
                   (nodeType d c = 1 \<and> isElementVisible d c = Some True) \<or>
                   (nodeType d c = 3 \<and> width (rangeBoundingClientRect d c) > 0 \<and>
                    height (rangeBoundingClientRect d c) > 0)) \<and>
         (childNodes d e = [] \<longrightarrow> isElementVisible d e = Some False)"
proof -
  from assms(1) have wf: "wf (upRel d)" "wf (childRel d)" by (simp_all add: acyclicDom_def)
  have kids: "\<forall>c\<in>set (childNodes d e). \<exists>b. isElementVisible d c = Some b"
    using isElementVisible_returns [OF wf] by blast
  have unfold: "isElementVisible d e = contentsChildrenVisible d (childNodes d e)"
    using assms(2,3) by (simp add: isElementVisible_unfold)
  have box: "isVisibleTextNode d c =
               (width (rangeBoundingClientRect d c) > 0 \<and> height (rangeBoundingClientRect d c) > 0)"
    for c by (simp add: isVisibleTextNode_def Let_def)
  from contentsChildrenVisible_result [OF kids] unfold
  have res: "isElementVisible d e =
           Some (\<exists>c\<in>set (childNodes d e).
                   (nodeType d c = 1 \<and> isElementVisible d c = Some True) \<or>
                   (nodeType d c = 3 \<and> width (rangeBoundingClientRect d c) > 0 \<and>
                    height (rangeBoundingClientRect d c) > 0))"
    by (simp only: box)
  have "childNodes d e = [] \<longrightarrow> isElementVisible d e = Some False"
    using unfold by (simp add: contentsChildrenVisible_Nil)
  with res show ?thesis by (intro conjI)
qed

theorem isElementVisible_display_contents_witness:
  "acyclicDom visDom \<and>
   getElementComputedStyle visDom 1 None = Some \<lparr>display = ''contents'', visibility = ''visible''\<rparr> \<and>
   childNodes visDom 1 = [2, 3] \<and> nodeType visDom 2 = 3 \<and>
   rangeBoundingClientRect visDom 2 = \<lparr>width = 0, height = 0\<rparr> \<and>
   nodeType visDom 3 = 1 \<and> isElementVisible visDom 3 = Some True \<and>
   isElementVisible visDom 1 = Some True \<and>
   getElementComputedStyle visDom 7 None = Some \<lparr>display = ''contents'', visibility = ''hidden''\<rparr> \<and>
   childNodes visDom 7 = [8] \<and> nodeType visDom 8 = 3 \<and>
   rangeBoundingClientRect visDom 8 = \<lparr>width = 5, height = 5\<rparr> \<and>
   isElementVisible visDom 7 = Some True \<and>
   getElementComputedStyle visDom 10 None = Some \<lparr>display = ''contents'', visibility = ''visible''\<rparr> \<and>
   childNodes visDom 10 = [11, 12] \<and> nodeType visDom 11 = 3 \<and>
   rangeBoundingClientRect visDom 11 = \<lparr>width = 0, height = 0\<rparr> \<and>
   nodeType visDom 12 = 1 \<and> isElementVisible visDom 12 = Some False \<and>
   isElementVisible visDom 10 = Some False"
proof -
  let ?v = "\<lparr>display = ''contents'', visibility = ''visible''\<rparr>"
  let ?h = "\<lparr>display = ''contents'', visibility = ''hidden''\<rparr>"
  let ?P = "\<lambda>c. (nodeType visDom c = 1 \<and> isElementVisible visDom c = Some True) \<or>
                 (nodeType visDom c = 3 \<and> width (rangeBoundingClientRect visDom c) > 0 \<and>
                  height (rangeBoundingClientRect visDom c) > 0)"
  have s1: "getElementComputedStyle visDom 1 None = Some ?v"
    and s7: "getElementComputedStyle visDom 7 None = Some ?h"
    and s10: "getElementComputedStyle visDom 10 None = Some ?v"
    by (simp_all add: getElementComputedStyle_def visDom_fields)
  have k1: "childNodes visDom 1 = [2, 3]" and k7: "childNodes visDom 7 = [8]"
    and k10: "childNodes visDom 10 = [11, 12]"
    by (simp_all add: visDom_fields)
  have t: "nodeType visDom 2 = 3" "nodeType visDom 3 = 1" "nodeType visDom 8 = 3"
    "nodeType visDom 11 = 3" "nodeType visDom 12 = 1"
    by (simp_all add: visDom_fields)
  have r: "rangeBoundingClientRect visDom 2 = \<lparr>width = 0, height = 0\<rparr>"
    "rangeBoundingClientRect visDom 8 = \<lparr>width = 5, height = 5\<rparr>"
    "rangeBoundingClientRect visDom 11 = \<lparr>width = 0, height = 0\<rparr>"
    by (simp_all add: visDom_fields)
  have dv: "display ?v = ''contents''" and dh: "display ?h = ''contents''" by simp_all
  have ex1: "\<exists>c\<in>set (childNodes visDom 1). ?P c"
  proof (rule bexI [of _ 3])
    show "?P 3" using t(2) visDom_outer_span_visible by (intro disjI1 conjI)
    show "3 \<in> set (childNodes visDom 1)" unfolding k1 by simp
  qed
  have ex7: "\<exists>c\<in>set (childNodes visDom 7). ?P c"
  proof (rule bexI [of _ 8])
    show "?P 8" using t(3) by (intro disjI2 conjI) (simp_all add: r)
    show "8 \<in> set (childNodes visDom 7)" unfolding k7 by simp
  qed
  have no10: "\<not> (\<exists>c\<in>set (childNodes visDom 10). ?P c)"
    unfolding k10 using t(4,5) visDom_rejected_child by (simp add: r)
  from isElementVisible_display_contents [OF acyclicDom_visDom s1 dv]
  have "isElementVisible visDom 1 = Some (\<exists>c\<in>set (childNodes visDom 1). ?P c)"
    by (elim conjE)
  with ex1 have v1: "isElementVisible visDom 1 = Some True" by (simp only: simp_thms)
  from isElementVisible_display_contents [OF acyclicDom_visDom s7 dh]
  have "isElementVisible visDom 7 = Some (\<exists>c\<in>set (childNodes visDom 7). ?P c)"
    by (elim conjE)
  with ex7 have v7: "isElementVisible visDom 7 = Some True" by (simp only: simp_thms)
  from isElementVisible_display_contents [OF acyclicDom_visDom s10 dv]
  have "isElementVisible visDom 10 = Some (\<exists>c\<in>set (childNodes visDom 10). ?P c)"
    by (elim conjE)
  with no10 have v10: "isElementVisible visDom 10 = Some False" by (simp only: simp_thms)
  from acyclicDom_visDom s1 k1 t(1) r(1) t(2) visDom_outer_span_visible v1
    s7 k7 t(3) r(2) v7 s10 k10 t(4) r(3) t(5) visDom_rejected_child v10
  show ?thesis by (intro conjI)
qed

text \<open>
  C3. In a well-formed document, for an element that passes the style-visibility check,
  whose box has width not greater than 0 and height greater than 0 and whose own display
  is \<^verbatim>\<open>inline\<close>, \<^verbatim>\<open>isElementVisible\<close> returns true if and only if some direct element child
  has resolved display \<^verbatim>\<open>inline\<close> and is itself visible; with no such child it returns
  false.
\<close>

theorem isElementVisible_inline_quirk:
  assumes "acyclicDom d" and "getElementComputedStyle d e None = Some s"
    and "isElementStyleVisibilityVisible d e (Some s) = Some True"
    and "width (getBoundingClientRect d e) \<le> 0"
    and "height (getBoundingClientRect d e) > 0"
    and "display s = ''inline''"
  shows "isElementVisible d e =
           Some (\<exists>c\<in>set (childNodes d e). nodeType d c = 1 \<and>
                   map_option display (getElementComputedStyle d c None) = Some ''inline'' \<and>
                   isElementVisible d c = Some True)"
proof -
  from assms(1) have wf: "wf (upRel d)" "wf (childRel d)" by (simp_all add: acyclicDom_def)
  have kids: "\<forall>c\<in>set (childNodes d e). \<exists>b. isElementVisible d c = Some b"
    using isElementVisible_returns [OF wf] by blast
  have "isElementVisible d e = inlineChildrenVisible d (childNodes d e)"
    using assms(2-6) by (simp add: isElementVisible_unfold Let_def)
  with inlineChildrenVisible_result [OF kids] show ?thesis by (simp only:)
qed

theorem isElementVisible_inline_quirk_witness:
  "acyclicDom visDom \<and>
   getElementComputedStyle visDom 3 None = Some \<lparr>display = ''inline'', visibility = ''visible''\<rparr> \<and>
   isElementStyleVisibilityVisible visDom 3
     (Some \<lparr>display = ''inline'', visibility = ''visible''\<rparr>) = Some True \<and>
   getBoundingClientRect visDom 3 = \<lparr>width = 0, height = 10\<rparr> \<and>
   childNodes visDom 3 = [4] \<and> isElementVisible visDom 4 = Some True \<and>
   isElementVisible visDom 3 = Some True"
proof -
  let ?s = "\<lparr>display = ''inline'', visibility = ''visible''\<rparr>"
  have s: "getElementComputedStyle visDom 3 None = Some ?s"
    by (simp add: getElementComputedStyle_def visDom_fields)
  have sv: "isElementStyleVisibilityVisible visDom 3 (Some ?s) = Some True"
    by (simp add: isElementStyleVisibilityVisible_def visDom_fields)
  have r: "getBoundingClientRect visDom 3 = \<lparr>width = 0, height = 10\<rparr>"
    by (simp add: visDom_fields)
  have w: "width (getBoundingClientRect visDom 3) \<le> 0" by (simp add: r)
  have h: "height (getBoundingClientRect visDom 3) > 0" by (simp add: r)
  have i: "display ?s = ''inline''" by simp
  have k: "childNodes visDom 3 = [4]" by (simp add: visDom_fields)
  have c: "getElementComputedStyle visDom 4 None = Some ?s" "nodeType visDom 4 = 1"
    by (simp_all add: getElementComputedStyle_def visDom_fields)
  from isElementVisible_inline_quirk [OF acyclicDom_visDom s sv w h i]
  have "isElementVisible visDom 3 = Some True"
    by (simp add: k c visDom_inner_span_visible)
  with acyclicDom_visDom s sv r k visDom_inner_span_visible show ?thesis by (intro conjI)
qed

text \<open>
  C4. \<^verbatim>\<open>getElementComputedStyle\<close> returns none exactly when the element has no owner
  document or that document has no view; and whenever the style does not resolve, both
  \<^verbatim>\<open>isElementStyleVisibilityVisible\<close> and \<^verbatim>\<open>isElementVisible\<close> return true.
\<close>

theorem unresolved_style_fails_open:
  "(getElementComputedStyle d e pseudo = None \<longleftrightarrow>
      (ownerDocument d e = None \<or>
       (\<exists>doc. ownerDocument d e = Some doc \<and> defaultView d doc = None))) \<and>
   (getElementComputedStyle d e None = None \<longrightarrow>
      isElementStyleVisibilityVisible d e None = Some True \<and>
      isElementVisible d e = Some True)"
  by (auto simp: getElementComputedStyle_def isElementStyleVisibilityVisible_def
      isElementVisible_unfold split: option.splits)

theorem unresolved_style_fails_open_witness:
  "ownerDocument visDom 9 = None \<and> getElementComputedStyle visDom 9 None = None \<and>
   isElementStyleVisibilityVisible visDom 9 None = Some True \<and>
   isElementVisible visDom 9 = Some True"
proof -
  have o: "ownerDocument visDom 9 = None" by (simp add: visDom_fields)
  then have n: "getElementComputedStyle visDom 9 None = None"
    by (simp add: getElementComputedStyle_def)
  from unresolved_style_fails_open [of visDom 9 None] n
  have "isElementStyleVisibilityVisible visDom 9 None = Some True"
       "isElementVisible visDom 9 = Some True"
    by simp_all
  with o n show ?thesis by (intro conjI)
qed

text \<open>
  C7, as stated: an element whose box has positive width and height and whose resolved
  CSS visibility is \<^verbatim>\<open>visible\<close> is reported visible. Element 6 of \<open>visDom\<close> is such an
  element, but \<^verbatim>\<open>checkVisibility\<close> rejects it and \<^verbatim>\<open>isElementVisible\<close> returns false.
\<close>

theorem isElementVisible_false_despite_box_and_visibility:
  "width (getBoundingClientRect visDom 6) > 0 \<and> height (getBoundingClientRect visDom 6) > 0 \<and>
   map_option visibility (getElementComputedStyle visDom 6 None) = Some ''visible'' \<and>
   isElementVisible visDom 6 = Some False"
  using visDom_block_rejected
  by (simp add: getElementComputedStyle_def visDom_fields)

text \<open>
  C7, amended: an element whose style resolves, whose display is not \<^verbatim>\<open>contents\<close>, that
  passes the style-visibility check (\<^verbatim>\<open>checkVisibility\<close>, or the collapsed-details
  fallback, does not reject it, and its CSS visibility is \<^verbatim>\<open>visible\<close>) and whose box has
  positive width and height is reported visible.
\<close>

theorem isElementVisible_box_and_style_visible:
  assumes "getElementComputedStyle d e None = Some s"
    and "display s \<noteq> ''contents''"
    and "isElementStyleVisibilityVisible d e (Some s) = Some True"
    and "width (getBoundingClientRect d e) > 0"
    and "height (getBoundingClientRect d e) > 0"
  shows "visibility s = ''visible'' \<and> isElementVisible d e = Some True"
proof
  show "visibility s = ''visible''"
    using assms(3)
    by (auto simp: isElementStyleVisibilityVisible_def
        split: if_splits option.splits bind_splits)
  show "isElementVisible d e = Some True"
    using assms by (simp add: isElementVisible_unfold Let_def)
qed

theorem isElementVisible_box_and_style_visible_witness:
  "getElementComputedStyle visDom 4 None = Some \<lparr>display = ''inline'', visibility = ''visible''\<rparr> \<and>
   isElementStyleVisibilityVisible visDom 4
     (Some \<lparr>display = ''inline'', visibility = ''visible''\<rparr>) = Some True \<and>
   getBoundingClientRect visDom 4 = \<lparr>width = 10, height = 10\<rparr> \<and>
   isElementVisible visDom 4 = Some True"
proof -
  let ?s = "\<lparr>display = ''inline'', visibility = ''visible''\<rparr>"
  have s: "getElementComputedStyle visDom 4 None = Some ?s"
    by (simp add: getElementComputedStyle_def visDom_fields)
  have nc: "display ?s \<noteq> ''contents''" by simp
  have sv: "isElementStyleVisibilityVisible visDom 4 (Some ?s) = Some True"
    by (simp add: isElementStyleVisibilityVisible_def visDom_fields)
  have r: "getBoundingClientRect visDom 4 = \<lparr>width = 10, height = 10\<rparr>"
    by (simp add: visDom_fields)
  have w: "width (getBoundingClientRect visDom 4) > 0" by (simp add: r)
  have h: "height (getBoundingClientRect visDom 4) > 0" by (simp add: r)
  from isElementVisible_box_and_style_visible [OF s nc sv w h]
  have "isElementVisible visDom 4 = Some True" by simp
  with s sv r show ?thesis by (intro conjI)
qed

text \<open>
  C10. In a well-formed document, an element whose resolved display is \<^verbatim>\<open>contents\<close> and
  that has a text child with a range box of positive width and height is reported
  visible, whatever the style-visibility check says about the element: its own CSS
  visibility and \<^verbatim>\<open>checkVisibility\<close> are not consulted.
\<close>

theorem isElementVisible_contents_visible_text_child:
  assumes "acyclicDom d" and "getElementComputedStyle d e None = Some s"
    and "display s = ''contents''"
    and "c \<in> set (childNodes d e)" and "nodeType d c = 3" and "isVisibleTextNode d c"
  shows "isElementVisible d e = Some True"
proof -
  from assms(1) have wf: "wf (upRel d)" "wf (childRel d)" by (simp_all add: acyclicDom_def)
  have kids: "\<forall>c\<in>set (childNodes d e). \<exists>b. isElementVisible d c = Some b"
    using isElementVisible_returns [OF wf] by blast
  have "isElementVisible d e = contentsChildrenVisible d (childNodes d e)"
    using assms(2,3) by (simp add: isElementVisible_unfold)
  also have "\<dots> = Some (\<exists>c\<in>set (childNodes d e).
                   (nodeType d c = 1 \<and> isElementVisible d c = Some True) \<or>
                   (nodeType d c = 3 \<and> isVisibleTextNode d c))"
    by (rule contentsChildrenVisible_result [OF kids])
  also have "\<dots> = Some True" using assms(4-6) by auto
  finally show ?thesis .
qed

theorem isElementVisible_contents_visible_text_child_witness:
  "acyclicDom visDom \<and>
   getElementComputedStyle visDom 7 None = Some \<lparr>display = ''contents'', visibility = ''hidden''\<rparr> \<and>
   \<not> checkVisibility visDom 7 \<and>
   isElementStyleVisibilityVisible visDom 7 None = Some False \<and>
   childNodes visDom 7 = [8] \<and> nodeType visDom 8 = 3 \<and> isVisibleTextNode visDom 8 \<and>
   isElementVisible visDom 7 = Some True"
proof -
  let ?s = "\<lparr>display = ''contents'', visibility = ''hidden''\<rparr>"
  have s: "getElementComputedStyle visDom 7 None = Some ?s"
    by (simp add: getElementComputedStyle_def visDom_fields)
  have dc: "display ?s = ''contents''" by simp
  have cv: "\<not> checkVisibility visDom 7" by (simp add: visDom_fields)
  have k: "childNodes visDom 7 = [8]" by (simp add: visDom_fields)
  have m: "8 \<in> set (childNodes visDom 7)" by (simp add: k)
  have t: "nodeType visDom 8 = 3" by (simp add: visDom_fields)
  have v: "isVisibleTextNode visDom 8" by (simp add: isVisibleTextNode_def visDom_fields)
  from isElementVisible_contents_visible_text_child [OF acyclicDom_visDom s dc m t v]
  have "isElementVisible visDom 7 = Some True" .
  with acyclicDom_visDom s cv visDom_hidden_contents_style k t v show ?thesis
    by (intro conjI)
qed

end
